theory Spec2Isabelle
  imports Main
begin

section \<open>The orchestrator: \<^verbatim>\<open>src/memstrack.c\<close>\<close>

subsection \<open>Process state: the global flags and what the process has done so far\<close>

text \<open>
  Everything the process does beyond changing its globals is recorded, in order, in a
  trace: a call of a function that lives outside \<^verbatim>\<open>memstrack.c\<close> (the adapters, the
  engine, the C library), or a line written to one of the two output streams.
  Message texts are named by the source line that prints them.
\<close>

datatype stream = Stdout | Stderr

datatype message =
    Usage_line nat           \<comment> \<open>the \<^verbatim>\<open>log_info\<close> of \<^verbatim>\<open>display_usage\<close> at that source line\<close>
  | Err_throttle_range       \<comment> \<open>line 178\<close>
  | Err_ftrace_and_perf      \<comment> \<open>line 205\<close>
  | Err_page_or_slab         \<comment> \<open>line 214\<close>
  | Err_need_root            \<comment> \<open>line 219\<close>
  | Err_perf_init int        \<comment> \<open>line 227\<close>
  | Err_ftrace_open int      \<comment> \<open>line 235\<close>
  | Dbg_exit_on_signal int   \<comment> \<open>line 65\<close>
  | Getopt_diagnostic        \<comment> \<open>what \<^verbatim>\<open>getopt_long\<close> itself prints when it returns \<^verbatim>\<open>'?'\<close>\<close>

datatype extcall =
    Mallopt_top_pad | Mallopt_trim_threshold | Getpagesize
  | Mem_tracing_init | Print_slab_usage
  | Perf_handling_init | Perf_handling_start | Perf_handling_process | Perf_handling_clean
  | Ftrace_handling_init | Ftrace_handling_process | Ftrace_handling_clean
  | Signal_sigint_on_signal
  | Final_report

datatype action = Call extcall | Print stream message

record state =
  m_debug :: int
  m_human :: int
  m_perf :: int
  m_ftrace :: int
  m_json :: int
  m_slab :: int
  m_page :: int
  m_show_misc :: int
  m_throttle :: int
  m_summary :: int
  m_sort_alloc :: int
  m_sort_peak :: int
  m_perf_base :: "string option"
  trace :: "action list"

text \<open>The initialisers of lines 20--35: C zero-initialises the globals without one.\<close>

definition initial_state :: state where
  "initial_state =
     \<lparr> m_debug = 0, m_human = 0, m_perf = 0, m_ftrace = 0, m_json = 0, m_slab = 0,
       m_page = 0, m_show_misc = 0, m_throttle = 100, m_summary = 0,
       m_sort_alloc = 1, m_sort_peak = 0, m_perf_base = None, trace = [] \<rparr>"

definition call :: "extcall \<Rightarrow> state \<Rightarrow> state" where
  "call f st = st\<lparr>trace := trace st @ [Call f]\<rparr>"

text \<open>
  How the process ends: \<^verbatim>\<open>exit(n)\<close>; a read through the null \<^verbatim>\<open>optarg\<close>; or control
  entering one of the two \<^verbatim>\<open>while (1)\<close> loops (lines 71 and 77), which no statement of
  \<^verbatim>\<open>memstrack.c\<close> leaves.
\<close>

datatype adapter = Perf | Ftrace

datatype outcome = Exit int | Segv | Tracing adapter

text \<open>
  The values of \<^verbatim>\<open><errno.h>\<close> on Linux (\<^verbatim>\<open>asm-generic/errno-base.h\<close>), the only
  platform that has the two tracing facilities.
\<close>

definition EPERM :: int where "EPERM = 1"
definition EINVAL :: int where "EINVAL = 22"

subsection \<open>Logging (lines 37--51)\<close>

text \<open>Modelled from the spec: the log levels and the macros \<^verbatim>\<open>log_debug\<close>, \<^verbatim>\<open>log_info\<close>,
  \<^verbatim>\<open>log_error\<close> of \<^verbatim>\<open>memstrack.h\<close>, which is not among the sources. Section 7 has every
  fatal error reported on the diagnostic stream and the recoverable ones visible with
  verbose logging only, and the usage text is always printed: the levels increase from
  debug to error, and each macro calls \<^verbatim>\<open>m_log\<close> at its level.\<close>

definition LOG_LVL_DEBUG :: int where "LOG_LVL_DEBUG = 0"
definition LOG_LVL_INFO :: int where "LOG_LVL_INFO = 1"
definition LOG_LVL_WARN :: int where "LOG_LVL_WARN = 2"
definition LOG_LVL_ERROR :: int where "LOG_LVL_ERROR = 3"

definition m_log :: "int \<Rightarrow> message \<Rightarrow> state \<Rightarrow> state" where
  "m_log level msg st =
     (if m_debug st = 0 \<and> level \<le> LOG_LVL_DEBUG then st
      else if level \<ge> LOG_LVL_WARN then st\<lparr>trace := trace st @ [Print Stderr msg]\<rparr>
      else st\<lparr>trace := trace st @ [Print Stdout msg]\<rparr>)"

definition log_debug :: "message \<Rightarrow> state \<Rightarrow> state" where
  "log_debug = m_log LOG_LVL_DEBUG"

definition log_info :: "message \<Rightarrow> state \<Rightarrow> state" where
  "log_info = m_log LOG_LVL_INFO"

definition log_error :: "message \<Rightarrow> state \<Rightarrow> state" where
  "log_error = m_log LOG_LVL_ERROR"

subsection \<open>Usage text (lines 102--122)\<close>

definition usage_lines :: "nat list" where
  "usage_lines = [103, 104, 105, 106, 107, 108, 110, 112, 113, 114, 115, 116, 117, 118,
                  119, 120, 121]"

definition display_usage :: "state \<Rightarrow> state" where
  "display_usage st = fold (\<lambda>l. log_info (Usage_line l)) usage_lines st"

subsection \<open>C library: \<^verbatim>\<open>strcmp\<close>, \<^verbatim>\<open>atoi\<close>\<close>

fun strcmp :: "string \<Rightarrow> string \<Rightarrow> int" where
  "strcmp [] [] = 0"
| "strcmp [] (b # bs) = - of_char b"
| "strcmp (a # as) [] = of_char a"
| "strcmp (a # as) (b # bs) = (if a = b then strcmp as bs else of_char a - of_char b)"

definition isspace :: "char \<Rightarrow> bool" where
  "isspace c = ((of_char c :: nat) = 32 \<or> (9 \<le> (of_char c :: nat) \<and> (of_char c :: nat) \<le> 13))"

definition isdigit :: "char \<Rightarrow> bool" where
  "isdigit c = (48 \<le> (of_char c :: nat) \<and> (of_char c :: nat) \<le> 57)"

fun digits_value :: "int \<Rightarrow> string \<Rightarrow> int" where
  "digits_value acc [] = acc"
| "digits_value acc (c # cs) =
     (if isdigit c then digits_value (acc * 10 + (of_char c - 48)) cs else acc)"

text \<open>
  \<^verbatim>\<open>strtol(s, NULL, 10)\<close> on a 64-bit \<^verbatim>\<open>long\<close>: leading white space, an optional sign,
  the longest run of decimal digits, the result saturated at the ends of the type.
\<close>

definition strtol :: "string \<Rightarrow> int" where
  "strtol s =
     (let s1 = dropWhile isspace s;
          neg = (take 1 s1 = ''-'');
          s2 = (if take 1 s1 = ''-'' \<or> take 1 s1 = ''+'' then drop 1 s1 else s1);
          v = digits_value 0 s2
      in max (- (2 ^ 63)) (min (2 ^ 63 - 1) (if neg then - v else v)))"

text \<open>\<^verbatim>\<open>atoi\<close> is \<^verbatim>\<open>(int) strtol(s, NULL, 10)\<close>: the low 32 bits, read as signed.\<close>

definition atoi :: "string \<Rightarrow> int" where
  "atoi s = (strtol s + 2 ^ 31) mod 2 ^ 32 - 2 ^ 31"

subsection \<open>The option table (lines 82--99) and \<^verbatim>\<open>getopt_long\<close>\<close>

datatype flagvar = Fl_ftrace | Fl_perf | Fl_slab | Fl_page | Fl_json | Fl_show_misc | Fl_summary

datatype long_option =
  Long_option (opt_name: string) (opt_has_arg: bool) (opt_flag: "flagvar option") (opt_val: int)

definition long_options :: "long_option list" where
  "long_options =
     [ Long_option ''ftrace'' False (Some Fl_ftrace) 1,
       Long_option ''perf'' False (Some Fl_perf) 1,
       Long_option ''slab'' False (Some Fl_slab) 1,
       Long_option ''page'' False (Some Fl_page) 1,
       Long_option ''json'' False (Some Fl_json) 1,
       Long_option ''show-misc'' False (Some Fl_show_misc) 1,
       Long_option ''summary'' False (Some Fl_summary) 1,
       Long_option ''debug'' False None (of_char CHR ''d''),
       Long_option ''throttle'' True None (of_char CHR ''t''),
       Long_option ''sort-by'' True None (of_char CHR ''s''),
       Long_option ''help'' False None (of_char CHR ''?'') ]"

definition optstring :: string where
  "optstring = ''db:h''"

fun set_flag :: "flagvar \<Rightarrow> int \<Rightarrow> state \<Rightarrow> state" where
  "set_flag Fl_ftrace v st = st\<lparr>m_ftrace := v\<rparr>"
| "set_flag Fl_perf v st = st\<lparr>m_perf := v\<rparr>"
| "set_flag Fl_slab v st = st\<lparr>m_slab := v\<rparr>"
| "set_flag Fl_page v st = st\<lparr>m_page := v\<rparr>"
| "set_flag Fl_json v st = st\<lparr>m_json := v\<rparr>"
| "set_flag Fl_show_misc v st = st\<lparr>m_show_misc := v\<rparr>"
| "set_flag Fl_summary v st = st\<lparr>m_summary := v\<rparr>"

text \<open>
  \<^verbatim>\<open>getopt_long\<close> is the C library's. The model follows getopt(3) and glibc's
  \<^verbatim>\<open>posix/getopt.c\<close> for the calls \<^verbatim>\<open>main\<close> makes (this option string, this table,
  \<^verbatim>\<open>opterr\<close> left at 1). Its position in \<^verbatim>\<open>argv\<close> is the pair of the characters left in
  the current cluster of short options (\<^verbatim>\<open>nextchar\<close>) and the arguments not yet looked at.
  A call returns the option code, \<^verbatim>\<open>optarg\<close> (reset to null at each call), the new
  position, and the state, changed when the option found stores its value through a flag
  pointer. Arguments that are not options are passed over (glibc permutes them to the
  end), unless \<^verbatim>\<open>POSIXLY_CORRECT\<close> is set, when the first one ends the scan.
\<close>

type_synonym getopt_result = "int \<times> string option \<times> string \<times> string list \<times> state"

definition getopt_error :: "state \<Rightarrow> state" where
  "getopt_error st = st\<lparr>trace := trace st @ [Print Stderr Getopt_diagnostic]\<rparr>"

definition deliver :: "long_option \<Rightarrow> string option \<Rightarrow> string list \<Rightarrow> state \<Rightarrow> getopt_result" where
  "deliver p oa rest st =
     (case opt_flag p of
        Some f \<Rightarrow> (0, oa, [], rest, set_flag f (opt_val p) st)
      | None \<Rightarrow> (opt_val p, oa, [], rest, st))"

definition same_option :: "long_option \<Rightarrow> long_option \<Rightarrow> bool" where
  "same_option p q =
     (opt_has_arg p = opt_has_arg q \<and> opt_flag p = opt_flag q \<and> opt_val p = opt_val q)"

text \<open>
  A long option: the name runs to the first \<^verbatim>\<open>=\<close>; an exact match wins, otherwise the
  name may be any prefix that fits one entry only (entries that agree in everything but
  the name count as one).
\<close>

definition find_long_option :: "string \<Rightarrow> long_option option" where
  "find_long_option nm =
     (case find (\<lambda>p. opt_name p = nm) long_options of
        Some p \<Rightarrow> Some p
      | None \<Rightarrow>
          (case filter (\<lambda>p. take (length nm) (opt_name p) = nm) long_options of
             [] \<Rightarrow> None
           | p # ps \<Rightarrow> if list_all (same_option p) ps then Some p else None))"

definition process_long_option :: "string \<Rightarrow> string list \<Rightarrow> state \<Rightarrow> getopt_result" where
  "process_long_option nextchar rest st =
     (let nm = takeWhile (\<lambda>c. c \<noteq> CHR ''='') nextchar in
      case find_long_option nm of
        None \<Rightarrow> (of_char CHR ''?'', None, [], rest, getopt_error st)
      | Some p \<Rightarrow>
          if length nm < length nextchar then
            (if opt_has_arg p then deliver p (Some (drop (length nm + 1) nextchar)) rest st
             else (of_char CHR ''?'', None, [], rest, getopt_error st))
          else if opt_has_arg p then
            (case rest of
               [] \<Rightarrow> (of_char CHR ''?'', None, [], [], getopt_error st)
             | a # rest' \<Rightarrow> deliver p (Some a) rest' st)
          else deliver p None rest st)"

definition strchr :: "string \<Rightarrow> char \<Rightarrow> string" where
  "strchr s c = dropWhile (\<lambda>x. x \<noteq> c) s"

text \<open>
  A short option \<^verbatim>\<open>c\<close> followed in its argument by \<^verbatim>\<open>cs\<close>. The empty result of
  \<^const>\<open>strchr\<close> stands for the null pointer. The option string has no \<^verbatim>\<open>::\<close> and no
  \<^verbatim>\<open>W;\<close>, so the branches of glibc for those are left out.
\<close>

definition process_short_option :: "char \<Rightarrow> string \<Rightarrow> string list \<Rightarrow> state \<Rightarrow> getopt_result" where
  "process_short_option c cs rest st =
     (let temp = strchr optstring c in
      if temp = [] \<or> c = CHR '':'' \<or> c = CHR '';'' then
        (of_char CHR ''?'', None, cs, rest, getopt_error st)
      else if take 1 (drop 1 temp) = '':'' then
        (if cs \<noteq> [] then (of_char c, Some cs, [], rest, st)
         else case rest of
                [] \<Rightarrow> (of_char CHR ''?'', None, [], [], getopt_error st)
              | a # rest' \<Rightarrow> (of_char c, Some a, [], rest', st))
      else (of_char c, None, cs, rest, st))"

fun getopt_long :: "bool \<Rightarrow> string \<Rightarrow> string list \<Rightarrow> state \<Rightarrow> getopt_result" where
  "getopt_long posixly_correct (c # cs) rest st = process_short_option c cs rest st"
| "getopt_long posixly_correct [] [] st = (- 1, None, [], [], st)"
| "getopt_long posixly_correct [] (a # rest) st =
     (if a = ''--'' then (- 1, None, [], rest, st)
      else if take 2 a = ''--'' then process_long_option (drop 2 a) rest st
      else if take 1 a = ''-'' \<and> drop 1 a \<noteq> [] then
        process_short_option (hd (drop 1 a)) (drop 2 a) rest st
      else if posixly_correct then (- 1, None, [], a # rest, st)
      else getopt_long posixly_correct [] rest st)"

subsection \<open>The option loop of \<^verbatim>\<open>main\<close> (lines 150--198)\<close>

text \<open>
  The body of the \<^verbatim>\<open>switch\<close>: the first component is the outcome when the case ends the
  process and \<open>None\<close> when it ends in \<^verbatim>\<open>break\<close>.
\<close>

definition option_switch :: "int \<Rightarrow> string option \<Rightarrow> state \<Rightarrow> outcome option \<times> state" where
  "option_switch opt optarg st =
     (if opt = 0 then (None, st)
      else if opt = of_char CHR ''d'' then (None, st\<lparr>m_debug := 1\<rparr>)
      else if opt = of_char CHR ''h'' then (None, st\<lparr>m_human := 1\<rparr>)
      else if opt = of_char CHR ''b'' then
        (case optarg of
           None \<Rightarrow> (Some Segv, st)
         | Some a \<Rightarrow> (None, st\<lparr>m_perf_base := Some a\<rparr>))
      else if opt = of_char CHR ''t'' then
        (case optarg of
           None \<Rightarrow> (Some Segv, st)
         | Some a \<Rightarrow>
             (let st1 = st\<lparr>m_throttle := atoi a\<rparr> in
              if m_throttle st1 < 0 \<or> m_throttle st1 > 100
              then (Some (Exit 1), log_error Err_throttle_range st1)
              else (None, st1)))
      else if opt = of_char CHR ''s'' then
        (case optarg of
           None \<Rightarrow> (Some Segv, st)
         | Some a \<Rightarrow>
             if strcmp a ''peak'' \<noteq> 0 then (None, st\<lparr>m_sort_peak := 1, m_sort_alloc := 0\<rparr>)
             else if strcmp a ''alloc'' \<noteq> 0 then (None, st\<lparr>m_sort_peak := 0, m_sort_alloc := 1\<rparr>)
             else (None, st))
      else if opt = of_char CHR ''?'' then (Some (Exit 0), display_usage st)
      else (Some (Exit 1), display_usage st))"

fun argv_size :: "string \<Rightarrow> string list \<Rightarrow> nat" where
  "argv_size nextchar rest = length nextchar + sum_list (map (\<lambda>a. Suc (length a)) rest)"


function parse_options :: "bool \<Rightarrow> string \<Rightarrow> string list \<Rightarrow> state \<Rightarrow> outcome option \<times> state" where
  "parse_options pc nc rest st =
     (case getopt_long pc nc rest st of
        (opt, optarg, nc', rest', st1) \<Rightarrow>
          if opt = - 1 then (None, st1)
          else (case option_switch opt optarg st1 of
                  (Some out, st2) \<Rightarrow> (Some out, st2)
                | (None, st2) \<Rightarrow> parse_options pc nc' rest' st2))"
  by pat_completeness auto
text \<open>
  The loop ends: every call of \<^verbatim>\<open>getopt_long\<close> that does not return \<^verbatim>\<open>-1\<close> uses up
  at least one character of the command line.
\<close>

termination
proof -
  have consumes: "argv_size nc' rest' < argv_size nc rest"
    if "getopt_long pc nc rest st = (opt, oa, nc', rest', st')" and "opt \<noteq> - 1"
    for pc nc rest st opt oa nc' rest' st'
    using that
  proof (induction pc nc rest st rule: getopt_long.induct)
    case (1 pc c cs rest st)
    then show ?case
      by (auto simp: process_short_option_def Let_def split: if_splits list.splits)
  next
    case (2 pc st)
    then show ?case by simp
  next
    case (3 pc a rest st)
    show ?case
    proof (cases "a = ''--''")
      case True
      with 3 show ?thesis by simp
    next
      case nodd: False
      show ?thesis
      proof (cases "take 2 a = ''--''")
        case True
        with 3 nodd show ?thesis
          by (auto simp: process_long_option_def deliver_def Let_def
                   split: if_splits list.splits option.splits)
      next
        case nolong: False
        show ?thesis
        proof (cases "take 1 a = ''-'' \<and> drop 1 a \<noteq> []")
          case True
          then obtain c cs where a: "a = CHR ''-'' # c # cs"
            by (cases a; cases "tl a") auto
          with 3 nodd nolong show ?thesis
            by (auto simp: process_short_option_def Let_def split: if_splits list.splits)
        next
          case False
          with 3 nodd nolong show ?thesis
            by (cases pc) (auto split: if_splits)
        qed
      qed
    qed
  qed
  show ?thesis
    by (relation "measure (\<lambda>(pc, nc, rest, st). argv_size nc rest)")
       (auto dest: consumes [OF sym] simp del: argv_size.simps)
qed

declare parse_options.simps [simp del]

subsection \<open>\<^verbatim>\<open>do_exit\<close>, \<^verbatim>\<open>on_signal\<close> (lines 53--67)\<close>

definition do_exit :: "state \<Rightarrow> outcome \<times> state" where
  "do_exit st =
     (let st1 = (if m_ftrace st \<noteq> 0 then call Ftrace_handling_clean st else st);
          st2 = (if m_perf st1 \<noteq> 0 then call Perf_handling_clean st1 else st1)
      in (Exit 0, call Final_report st2))"

definition on_signal :: "int \<Rightarrow> state \<Rightarrow> outcome \<times> state" where
  "on_signal signal st = do_exit (log_debug (Dbg_exit_on_signal signal) st)"

subsection \<open>\<^verbatim>\<open>do_process_perf\<close>, \<^verbatim>\<open>do_process_ftrace\<close> (lines 69--80)\<close>

text \<open>
  Up to the head of the \<^verbatim>\<open>while (1)\<close> loop; what happens in the loop is the subject of
  the section on sessions.
\<close>

definition do_process_perf :: "state \<Rightarrow> outcome \<times> state" where
  "do_process_perf st = (Tracing Perf, call Perf_handling_start st)"

definition do_process_ftrace :: "state \<Rightarrow> outcome \<times> state" where
  "do_process_ftrace st = (Tracing Ftrace, st)"

subsection \<open>\<^verbatim>\<open>main\<close> (lines 144--242)\<close>

text \<open>
  What \<^verbatim>\<open>main\<close> reads from outside the process: whether \<^verbatim>\<open>POSIXLY_CORRECT\<close> is in the
  environment (for \<^verbatim>\<open>getopt_long\<close>), the result of \<^verbatim>\<open>getuid\<close>, and the values that
  \<^verbatim>\<open>perf_handling_init\<close> and \<^verbatim>\<open>ftrace_handling_init\<close> would return.
\<close>

record environment =
  posixly_correct :: bool
  uid :: nat
  perf_init_result :: int
  ftrace_init_result :: int

definition tune_glibc :: "state \<Rightarrow> state" where
  "tune_glibc st = call Mallopt_trim_threshold (call Mallopt_top_pad st)"

text \<open>Lines 200--241, after the option loop has ended through its \<^verbatim>\<open>break\<close>.\<close>

definition main_after_options :: "environment \<Rightarrow> state \<Rightarrow> outcome \<times> state" where
  "main_after_options env st =
     (let st1 = (if m_show_misc st \<noteq> 0 then call Print_slab_usage st else st) in
      if m_perf st1 \<noteq> 0 \<and> m_ftrace st1 \<noteq> 0 then (Exit EINVAL, log_error Err_ftrace_and_perf st1)
      else
        let st2 = (if m_perf st1 = 0 \<and> m_ftrace st1 = 0 then st1\<lparr>m_perf := 1\<rparr> else st1) in
        if m_page st2 = 0 \<and> m_slab st2 = 0 then (Exit EINVAL, log_error Err_page_or_slab st2)
        else if uid env \<noteq> 0 then (Exit EPERM, log_error Err_need_root st2)
        else if m_perf st2 \<noteq> 0 then
          (let st3 = call Perf_handling_init st2; err = perf_init_result env in
           if err \<noteq> 0 then (Exit err, log_error (Err_perf_init err) st3)
           else do_process_perf (call Signal_sigint_on_signal st3))
        else if m_ftrace st2 \<noteq> 0 then
          (let st3 = call Ftrace_handling_init st2; err = ftrace_init_result env in
           if err \<noteq> 0 then (Exit err, log_error (Err_ftrace_open err) st3)
           else do_process_ftrace (call Signal_sigint_on_signal st3))
        else do_exit st2)"

text \<open>\<open>args\<close> is \<^verbatim>\<open>argv[1]\<close> \<dots> \<^verbatim>\<open>argv[argc - 1]\<close>.\<close>

definition main :: "environment \<Rightarrow> string list \<Rightarrow> outcome \<times> state" where
  "main env args =
     (let st0 = call Mem_tracing_init (call Getpagesize (tune_glibc initial_state)) in
      case parse_options (posixly_correct env) [] args st0 of
        (Some out, st1) \<Rightarrow> (out, st1)
      | (None, st1) \<Rightarrow> main_after_options env st1)"

text \<open>
  What the code calls a tracing resource is acquired, driven and released by the adapter
  functions only; these are the calls that touch one.
\<close>

fun touches_tracing :: "action \<Rightarrow> bool" where
  "touches_tracing (Call Perf_handling_init) = True"
| "touches_tracing (Call Perf_handling_start) = True"
| "touches_tracing (Call Perf_handling_process) = True"
| "touches_tracing (Call Perf_handling_clean) = True"
| "touches_tracing (Call Ftrace_handling_init) = True"
| "touches_tracing (Call Ftrace_handling_process) = True"
| "touches_tracing (Call Ftrace_handling_clean) = True"
| "touches_tracing _ = False"

definition root_env :: environment where
  "root_env = \<lparr> posixly_correct = False, uid = 0, perf_init_result = 0, ftrace_init_result = 0 \<rparr>"

definition untouched :: "state \<Rightarrow> bool" where
  "untouched st = list_all (\<lambda>a. \<not> touches_tracing a) (trace st)"

text \<open>What every run has done when the option loop starts (lines 145--148).\<close>

definition startup_trace :: "action list" where
  "startup_trace =
     [Call Mallopt_top_pad, Call Mallopt_trim_threshold, Call Getpagesize, Call Mem_tracing_init]"

definition usage_text :: "action list" where
  "usage_text = map (\<lambda>l. Print Stdout (Usage_line l)) usage_lines"





text \<open>The state in which the option loop starts.\<close>

definition startup_state :: state where
  "startup_state = call Mem_tracing_init (call Getpagesize (tune_glibc initial_state))"

text \<open>The option codes whose case of the \<^verbatim>\<open>switch\<close> reads \<^verbatim>\<open>optarg\<close>.\<close>

definition wants_optarg :: "int \<Rightarrow> bool" where
  "wants_optarg opt =
     (opt = of_char CHR ''b'' \<or> opt = of_char CHR ''t'' \<or> opt = of_char CHR ''s'')"

text \<open>The values that \<^verbatim>\<open>getopt_long\<close> can return for this table and option string.\<close>

definition known_code :: "int \<Rightarrow> bool" where
  "known_code opt =
     (opt = - 1 \<or> opt = 0 \<or> opt = of_char CHR ''?'' \<or> opt = of_char CHR ''d'' \<or>
      opt = of_char CHR ''h'' \<or> opt = of_char CHR ''b'' \<or> opt = of_char CHR ''t'' \<or>
      opt = of_char CHR ''s'')"

section \<open>A tracing session: the processing loops and the signal handler\<close>

text \<open>
  After \<^verbatim>\<open>signal(SIGINT, on_signal)\<close> (lines 230 and 238) the process is in one of the
  loops of lines 69--80, which call \<^verbatim>\<open>perf_handling_process\<close> or
  \<^verbatim>\<open>ftrace_handling_process\<close> for ever; that call is where the adapter reads events and
  applies them. Control is either at the head of the loop, between two such calls, or
  inside one. \<^verbatim>\<open>memstrack.c\<close> never blocks the signal, so the handler can run at either
  point; when it runs, \<^verbatim>\<open>on_signal\<close> is executed on top of whatever was interrupted.
  A session that has ended remembers the point at which the handler ran.
\<close>

definition SIGINT :: int where "SIGINT = 2"

datatype loop_point = At_loop_head | In_process

datatype session = Looping adapter loop_point | Ended outcome loop_point

datatype session_event = Process_begins | Process_returns | Sigint

fun handling_process :: "adapter \<Rightarrow> extcall" where
  "handling_process Perf = Perf_handling_process"
| "handling_process Ftrace = Ftrace_handling_process"

text \<open>One event of a session; \<open>None\<close> when the event cannot happen in that state.\<close>

fun session_step :: "session_event \<Rightarrow> session \<times> state \<Rightarrow> (session \<times> state) option" where
  "session_step Process_begins (Looping a At_loop_head, st) =
     Some (Looping a In_process, call (handling_process a) st)"
| "session_step Process_returns (Looping a In_process, st) = Some (Looping a At_loop_head, st)"
| "session_step Sigint (Looping a p, st) =
     (case on_signal SIGINT st of (out, st') \<Rightarrow> Some (Ended out p, st'))"
| "session_step _ _ = None"

fun run_session :: "session_event list \<Rightarrow> session \<times> state \<Rightarrow> (session \<times> state) option" where
  "run_session [] c = Some c"
| "run_session (e # es) c =
     (case session_step e c of None \<Rightarrow> None | Some c' \<Rightarrow> run_session es c')"

text \<open>A run of \<^const>\<open>main\<close> that reached one of the loops starts a session at its head.\<close>

fun session_start :: "outcome \<times> state \<Rightarrow> (session \<times> state) option" where
  "session_start (Tracing a, st) = Some (Looping a At_loop_head, st)"
| "session_start _ = None"

text \<open>What \<^const>\<open>do_exit\<close> and \<^const>\<open>on_signal\<close> add to the trace before \<^verbatim>\<open>final_report\<close>.\<close>

definition cleanup_calls :: "state \<Rightarrow> action list" where
  "cleanup_calls st =
     (if m_ftrace st \<noteq> 0 then [Call Ftrace_handling_clean] else []) @
     (if m_perf st \<noteq> 0 then [Call Perf_handling_clean] else [])"

definition signal_debug_line :: "state \<Rightarrow> action list" where
  "signal_debug_line st =
     (if m_debug st \<noteq> 0 then [Print Stdout (Dbg_exit_on_signal SIGINT)] else [])"

section \<open>The aggregation engine\<close>

text \<open>
  \<^verbatim>\<open>memstrack.c\<close> only calls it (\<^verbatim>\<open>mem_tracing_init\<close>, the adapters'
  \<^verbatim>\<open>*_handling_process\<close>, \<^verbatim>\<open>final_report\<close>); its code is not among the sources. Every
  definition of this section is therefore written from the specification, sections 3 and
  4.1.
\<close>

text \<open>Modelled from the spec: the kind of an \<^verbatim>\<open>AllocEvent\<close> (section 3); the event type
  is not in the sources.\<close>

datatype event_kind = Alloc | Free

text \<open>Modelled from the spec: the subsystem of an \<^verbatim>\<open>AllocEvent\<close> (section 3).\<close>

datatype subsystem = Page | Slab

text \<open>Modelled from the spec: \<^verbatim>\<open>AllocEvent\<close> (section 3), missing from the sources. Frames
  and origins are opaque identifiers, here numbers; the size is a non-negative integer.\<close>

record alloc_event =
  kind :: event_kind
  subsystem :: subsystem
  size_bytes :: nat
  call_stack :: "nat list"
  origin :: nat

text \<open>Modelled from the spec: \<^verbatim>\<open>CallSiteNode\<close> (section 3), missing from the sources. The
  children are kept in the order in which they were created, one node for each frame;
  the byte counters are integers, so that staying at or above zero is a property and
  not a matter of type.\<close>

datatype call_site_node =
  Node (frame_id: nat) (children: "call_site_node list")
       (current_bytes: int) (peak_bytes: int) (alloc_count: nat) (free_count: nat)

text \<open>Modelled from the spec: \<^verbatim>\<open>TaskMap\<close> (section 3), the mapping from origin to root
  node, in order of creation.\<close>

type_synonym task_map = "(nat \<times> call_site_node) list"

text \<open>Modelled from the spec: a node as it is when created lazily (section 3,
  Lifecycle), with all counters at zero.\<close>

definition new_node :: "nat \<Rightarrow> call_site_node" where
  "new_node f = Node f [] 0 0 0 0"

text \<open>Modelled from the spec: what \<^verbatim>\<open>ingest\<close> does to the terminal node (section 4.1).
  An Alloc adds the size to \<^verbatim>\<open>current_bytes\<close>, counts the allocation and raises
  \<^verbatim>\<open>peak_bytes\<close> to the new \<^verbatim>\<open>current_bytes\<close> if that is larger; a Free subtracts the
  size, stopping at zero, counts the free and leaves \<^verbatim>\<open>peak_bytes\<close> alone. The
  diagnostic of a clamped Free changes no counter and is left out.\<close>

fun account :: "event_kind \<Rightarrow> nat \<Rightarrow> call_site_node \<Rightarrow> call_site_node" where
  "account Alloc s (Node f ch cur pk ac fc) =
     Node f ch (cur + int s) (max pk (cur + int s)) (Suc ac) fc"
| "account Free s (Node f ch cur pk ac fc) =
     Node f ch (max 0 (cur - int s)) pk ac (Suc fc)"

text \<open>Modelled from the spec: find the child for a frame or create it (section 4.1,
  ``creating any missing nodes''), and apply \<open>g\<close> to it.\<close>

fun upsert_child ::
  "nat \<Rightarrow> (call_site_node \<Rightarrow> call_site_node) \<Rightarrow> call_site_node list \<Rightarrow> call_site_node list" where
  "upsert_child fr g [] = [g (new_node fr)]"
| "upsert_child fr g (n # ns) =
     (if frame_id n = fr then g n # ns else n # upsert_child fr g ns)"

text \<open>Modelled from the spec: the walk of section 4.1 along the call stack, first frame
  first, down to the terminal node, to which \<open>g\<close> is applied.\<close>

primrec walk ::
  "(call_site_node \<Rightarrow> call_site_node) \<Rightarrow> nat list \<Rightarrow> call_site_node \<Rightarrow> call_site_node" where
  "walk g [] n = g n"
| "walk g (fr # frs) n =
     Node (frame_id n) (upsert_child fr (walk g frs) (children n))
          (current_bytes n) (peak_bytes n) (alloc_count n) (free_count n)"

text \<open>Modelled from the spec: the root of an origin in the \<^verbatim>\<open>TaskMap\<close>, created on first
  use. The spec gives a root no frame; it gets the number 0, which nothing reads.\<close>

fun upsert_root ::
  "nat \<Rightarrow> (call_site_node \<Rightarrow> call_site_node) \<Rightarrow> task_map \<Rightarrow> task_map" where
  "upsert_root og g [] = [(og, g (new_node 0))]"
| "upsert_root og g ((k, r) # m) =
     (if k = og then (k, g r) # m else (k, r) # upsert_root og g m)"

text \<open>Modelled from the spec: \<^verbatim>\<open>ingest\<close> (section 4.1), missing from the sources.\<close>

definition ingest :: "alloc_event \<Rightarrow> task_map \<Rightarrow> task_map" where
  "ingest e m =
     upsert_root (origin e) (walk (account (kind e) (size_bytes e)) (call_stack e)) m"

text \<open>Modelled from the spec: the nodes of a tree (section 3), a node first, then its
  children in order of creation.\<close>

fun nodes_of :: "call_site_node \<Rightarrow> call_site_node list" where
  "nodes_of (Node f ch cur pk ac fc) = Node f ch cur pk ac fc # concat (map nodes_of ch)"

text \<open>Modelled from the spec: all nodes of the forest of a \<^verbatim>\<open>TaskMap\<close> (section 3).\<close>

definition forest_nodes :: "task_map \<Rightarrow> call_site_node list" where
  "forest_nodes m = concat (map (\<lambda>(og, r). nodes_of r) m)"

text \<open>The invariant of section 3 at one node, in a subtree and in a forest.\<close>

definition node_ok :: "call_site_node \<Rightarrow> bool" where
  "node_ok n = (0 \<le> current_bytes n \<and> current_bytes n \<le> peak_bytes n)"

definition all_ok :: "call_site_node \<Rightarrow> bool" where
  "all_ok n = list_all node_ok (nodes_of n)"

definition forest_ok :: "task_map \<Rightarrow> bool" where
  "forest_ok m = list_all node_ok (forest_nodes m)"

text \<open>The node that a path of frames leads to, from a root and in a forest.\<close>

primrec lookup_node :: "nat list \<Rightarrow> call_site_node \<Rightarrow> call_site_node option" where
  "lookup_node [] n = Some n"
| "lookup_node (fr # frs) n =
     (case find (\<lambda>c. frame_id c = fr) (children n) of
        None \<Rightarrow> None
      | Some c \<Rightarrow> lookup_node frs c)"

definition node_at :: "task_map \<Rightarrow> nat \<Rightarrow> nat list \<Rightarrow> call_site_node option" where
  "node_at m og path = (case map_of m og of None \<Rightarrow> None | Some r \<Rightarrow> lookup_node path r)"

text \<open>Events of the page allocator from origin 0, for examples.\<close>

definition page_event :: "event_kind \<Rightarrow> nat list \<Rightarrow> nat \<Rightarrow> alloc_event" where
  "page_event k st s =
     \<lparr> kind = k, subsystem = Page, size_bytes = s, call_stack = st, origin = 0 \<rparr>"

section \<open>Properties of the orchestrator\<close>

subsection \<open>Unfolding the model on given arguments\<close>

lemmas parse_options_unfold =
  parse_options.simps [of _ "[]" "[]"]
  parse_options.simps [of _ "[]" "a # rest" for a rest]
  parse_options.simps [of _ "c # cs" for c cs]

lemmas getopt_defs =
  process_long_option_def process_short_option_def find_long_option_def long_options_def
  optstring_def strchr_def deliver_def same_option_def getopt_error_def Let_def

lemmas log_defs =
  m_log_def log_debug_def log_info_def log_error_def
  LOG_LVL_DEBUG_def LOG_LVL_INFO_def LOG_LVL_WARN_def LOG_LVL_ERROR_def

lemmas main_defs =
  main_def main_after_options_def tune_glibc_def call_def initial_state_def do_exit_def
  do_process_perf_def do_process_ftrace_def root_env_def startup_trace_def EINVAL_def EPERM_def


lemmas atoi_defs = atoi_def strtol_def isspace_def isdigit_def

subsection \<open>What is printed\<close>

lemma trace_log_info: "trace (log_info m st) = trace st @ [Print Stdout m]"
  by (simp add: log_defs)

lemma trace_log_error: "trace (log_error m st) = trace st @ [Print Stderr m]"
  by (simp add: log_defs)

lemma trace_fold_log_info:
  "trace (fold (\<lambda>l. log_info (f l)) ls st) = trace st @ map (\<lambda>l. Print Stdout (f l)) ls"
  by (induction ls arbitrary: st) (simp_all add: trace_log_info)

lemma trace_display_usage: "trace (display_usage st) = trace st @ usage_text"
  by (simp add: display_usage_def usage_text_def trace_fold_log_info)

lemma usage_text_untouched: "list_all (\<lambda>a. \<not> touches_tracing a) usage_text"
  by (simp add: usage_text_def list_all_iff)

lemma trace_set_flag: "trace (set_flag f v st) = trace st"
  by (cases f) simp_all

subsection \<open>Single steps of the option loop\<close>


subsection \<open>The option loop touches no tracing resource\<close>

lemma getopt_long_trace:
  "getopt_long pc nc rest st = (opt, oa, nc', rest', st') \<Longrightarrow>
   trace st' = trace st \<or> trace st' = trace st @ [Print Stderr Getopt_diagnostic]"
proof (induction pc nc rest st rule: getopt_long.induct)
  case (1 pc c cs rest st)
  then show ?case
    by (auto simp: process_short_option_def getopt_error_def Let_def split: if_splits list.splits)
next
  case (2 pc st)
  then show ?case by simp
next
  case (3 pc a rest st)
  then show ?case
    by (auto simp: process_short_option_def process_long_option_def deliver_def getopt_error_def
                   trace_set_flag Let_def
             split: if_splits list.splits option.splits)
qed

lemma getopt_long_untouched:
  "getopt_long pc nc rest st = (opt, oa, nc', rest', st') \<Longrightarrow> untouched st \<Longrightarrow> untouched st'"
  by (drule getopt_long_trace) (auto simp: untouched_def)

lemma option_switch_untouched:
  "option_switch opt oa st = (r, st') \<Longrightarrow> untouched st \<Longrightarrow> untouched st'"
  using usage_text_untouched
  by (auto simp: option_switch_def untouched_def trace_display_usage trace_log_error Let_def
           split: if_splits option.splits)

lemma parse_options_untouched:
  "untouched st \<Longrightarrow> untouched (snd (parse_options pc nc rest st))"
proof (induction pc nc rest st rule: parse_options.induct)
  case (1 pc nc rest st)
  obtain opt oa nc' rest' st1 where g: "getopt_long pc nc rest st = (opt, oa, nc', rest', st1)"
    by (metis prod_cases5)
  have u1: "untouched st1" using getopt_long_untouched [OF g "1.prems"] .
  show ?case
  proof (cases "opt = - 1")
    case True
    with g u1 show ?thesis by (subst parse_options.simps) simp
  next
    case False
    obtain r st2 where s: "option_switch opt oa st1 = (r, st2)" by (metis surj_pair)
    have u2: "untouched st2" using option_switch_untouched [OF s u1] .
    show ?thesis
    proof (cases r)
      case None
      with "1.IH" [OF g [symmetric] refl refl refl False s [symmetric] _ u2] g s False
      show ?thesis by (subst parse_options.simps) simp
    next
      case (Some out)
      with g s False u2 show ?thesis by (subst parse_options.simps) simp
    qed
  qed
qed

subsection \<open>\<^verbatim>\<open>optarg\<close> is never read while null; the loop exits with 0 or 1 only\<close>

lemma find_long_option_mem: "find_long_option nm = Some p \<Longrightarrow> p \<in> set long_options"
proof -
  assume a: "find_long_option nm = Some p"
  show ?thesis
  proof (cases "find (\<lambda>p. opt_name p = nm) long_options")
    case None
    with a obtain ps where "filter (\<lambda>p. take (length nm) (opt_name p) = nm) long_options = p # ps"
      by (auto simp: find_long_option_def split: list.splits if_splits)
    then have "p \<in> set (filter (\<lambda>p. take (length nm) (opt_name p) = nm) long_options)"
      by simp
    then show ?thesis by simp
  next
    case (Some q)
    with a have "q = p" by (simp add: find_long_option_def)
    with Some show ?thesis by (auto simp: find_Some_iff)
  qed
qed

lemma long_option_with_optarg:
  "p \<in> set long_options \<Longrightarrow> opt_flag p = None \<Longrightarrow> wants_optarg (opt_val p) \<Longrightarrow> opt_has_arg p"
  by (auto simp: long_options_def wants_optarg_def)

lemma process_long_option_optarg:
  assumes "process_long_option nextchar rest st = (opt, oa, nc', rest', st')" and "wants_optarg opt"
  shows "oa \<noteq> None"
proof (cases "find_long_option (takeWhile (\<lambda>c. c \<noteq> CHR ''='') nextchar)")
  case None
  with assms show ?thesis
    by (auto simp: process_long_option_def wants_optarg_def Let_def)
next
  case (Some p)
  note m = find_long_option_mem [OF Some]
  show ?thesis
  proof (cases "opt_flag p")
    case None
    with assms Some long_option_with_optarg [OF m None] show ?thesis
      by (auto simp: process_long_option_def deliver_def Let_def wants_optarg_def
               split: if_splits list.splits)
  next
    case (Some f)
    with assms \<open>find_long_option _ = Some p\<close> show ?thesis
      by (auto simp: process_long_option_def deliver_def Let_def wants_optarg_def
               split: if_splits list.splits)
  qed
qed

lemma process_short_option_optarg:
  assumes "process_short_option c cs rest st = (opt, oa, nc', rest', st')" and "wants_optarg opt"
  shows "oa \<noteq> None"
  using assms
  by (auto simp: process_short_option_def optstring_def strchr_def Let_def wants_optarg_def
           split: if_splits list.splits)

lemma getopt_long_optarg:
  "getopt_long pc nc rest st = (opt, oa, nc', rest', st') \<Longrightarrow> wants_optarg opt \<Longrightarrow> oa \<noteq> None"
proof (induction pc nc rest st rule: getopt_long.induct)
  case (1 pc c cs rest st)
  then show ?case using process_short_option_optarg by simp
next
  case (2 pc st)
  then show ?case by (simp add: wants_optarg_def)
next
  case (3 pc a rest st)
  then show ?case
    using process_short_option_optarg process_long_option_optarg
    by (auto simp: wants_optarg_def [of "- 1"] split: if_splits)
qed

lemma option_switch_outcome:
  "option_switch opt oa st = (Some out, st') \<Longrightarrow> (wants_optarg opt \<Longrightarrow> oa \<noteq> None) \<Longrightarrow>
   out = Exit 0 \<or> out = Exit 1"
  by (auto simp: option_switch_def wants_optarg_def Let_def split: if_splits option.splits)

lemma parse_options_outcome:
  "fst (parse_options pc nc rest st) = Some out \<Longrightarrow> out = Exit 0 \<or> out = Exit 1"
proof (induction pc nc rest st rule: parse_options.induct)
  case (1 pc nc rest st)
  obtain opt oa nc' rest' st1 where g: "getopt_long pc nc rest st = (opt, oa, nc', rest', st1)"
    by (metis prod_cases5)
  show ?case
  proof (cases "opt = - 1")
    case True
    with g "1.prems" show ?thesis by (subst (asm) parse_options.simps) simp
  next
    case False
    obtain r st2 where s: "option_switch opt oa st1 = (r, st2)" by (metis surj_pair)
    show ?thesis
    proof (cases r)
      case None
      from "1.prems" g s False None
      have "fst (parse_options pc nc' rest' st2) = Some out"
        by (subst (asm) parse_options.simps) simp
      with "1.IH" [OF g [symmetric] refl refl refl False s [symmetric] None]
      show ?thesis .
    next
      case (Some o2)
      from "1.prems" g s False Some have "o2 = out"
        by (subst (asm) parse_options.simps) simp
      with s Some option_switch_outcome [of opt oa st1 out st2] getopt_long_optarg [OF g]
      show ?thesis by blast
    qed
  qed
qed

subsection \<open>The values returned by \<^verbatim>\<open>getopt_long\<close>\<close>

lemma long_option_codes:
  "p \<in> set long_options \<Longrightarrow> known_code (opt_val p) \<or> opt_flag p \<noteq> None"
  by (auto simp: long_options_def known_code_def)

lemma process_long_option_codes:
  assumes "process_long_option nextchar rest st = (opt, oa, nc', rest', st')"
  shows "known_code opt"
proof (cases "find_long_option (takeWhile (\<lambda>c. c \<noteq> CHR ''='') nextchar)")
  case None
  with assms show ?thesis
    by (auto simp: process_long_option_def known_code_def Let_def)
next
  case (Some p)
  from long_option_codes [OF find_long_option_mem [OF Some]] assms Some show ?thesis
    by (auto simp: process_long_option_def deliver_def Let_def known_code_def
             split: if_splits list.splits option.splits)
qed

lemma process_short_option_codes:
  assumes "process_short_option c cs rest st = (opt, oa, nc', rest', st')"
  shows "known_code opt"
  using assms
  by (auto simp: process_short_option_def optstring_def strchr_def Let_def known_code_def
           split: if_splits list.splits)

lemma getopt_long_codes:
  "getopt_long pc nc rest st = (opt, oa, nc', rest', st') \<Longrightarrow> known_code opt"
proof (induction pc nc rest st rule: getopt_long.induct)
  case (1 pc c cs rest st)
  then show ?case using process_short_option_codes by simp
next
  case (2 pc st)
  then show ?case by (simp add: known_code_def)
next
  case (3 pc a rest st)
  then show ?case
    using process_short_option_codes process_long_option_codes
    by (auto simp: known_code_def [of "- 1"] split: if_splits)
qed

lemma getopt_error_exits_zero:
  "getopt_long pc nc rest st = (of_char CHR ''?'', oa, nc', rest', st1) \<Longrightarrow>
   parse_options pc nc rest st = (Some (Exit 0), display_usage st1)"
  by (subst parse_options.simps) (simp add: option_switch_def)

lemma switch_default_case_unreachable:
  assumes "getopt_long pc nc rest st = (opt, oa, nc', rest', st1)" and "opt \<noteq> - 1"
  shows "opt = 0 \<or> opt = of_char CHR ''d'' \<or> opt = of_char CHR ''h'' \<or> opt = of_char CHR ''b'' \<or>
         opt = of_char CHR ''t'' \<or> opt = of_char CHR ''s'' \<or> opt = of_char CHR ''?''"
  using getopt_long_codes [OF assms(1)] assms(2) by (auto simp: known_code_def)

subsection \<open>Arguments that the loop scans through can be followed by more; how the loop ends\<close>

lemma long_option_val_nonneg: "p \<in> set long_options \<Longrightarrow> opt_val p \<noteq> - 1"
  by (auto simp: long_options_def)

lemma process_long_option_not_end:
  assumes "process_long_option nextchar rest st = (opt, oa, nc', rest', st')"
  shows "opt \<noteq> - 1"
proof (cases "find_long_option (takeWhile (\<lambda>c. c \<noteq> CHR ''='') nextchar)")
  case None
  with assms show ?thesis by (auto simp: process_long_option_def Let_def)
next
  case (Some p)
  from long_option_val_nonneg [OF find_long_option_mem [OF Some]] assms Some show ?thesis
    by (auto simp: process_long_option_def deliver_def Let_def
             split: if_splits list.splits option.splits)
qed





lemma getopt_long_quiet:
  "getopt_long pc nc pre st = (opt, oa, nc', pre', st1) \<Longrightarrow> opt \<noteq> of_char CHR ''?'' \<Longrightarrow>
   trace st1 = trace st"
proof (induction pc nc pre st rule: getopt_long.induct)
  case (1 pc c cs pre st)
  then show ?case
    by (auto simp: process_short_option_def Let_def split: if_splits list.splits)
next
  case (2 pc st)
  then show ?case by simp
next
  case (3 pc a pre st)
  then show ?case
    by (auto simp: process_short_option_def process_long_option_def deliver_def trace_set_flag
                   Let_def
             split: if_splits list.splits option.splits)
qed

lemma option_switch_quiet:
  "option_switch opt oa st = (None, st') \<Longrightarrow> trace st' = trace st"
  by (auto simp: option_switch_def Let_def split: if_splits option.splits)



lemma option_switch_exit:
  assumes "option_switch opt oa st = (Some out, st')" and "known_code opt" and "opt \<noteq> - 1"
    and "wants_optarg opt \<Longrightarrow> oa \<noteq> None"
  shows "(out = Exit 0 \<and> trace st' = trace st @ usage_text) \<or>
         (out = Exit 1 \<and> trace st' = trace st @ [Print Stderr Err_throttle_range])"
  using assms
  by (auto simp: option_switch_def known_code_def wants_optarg_def trace_display_usage
                 trace_log_error Let_def
           split: if_splits option.splits)

lemma parse_options_exit:
  "parse_options pc nc rest st = (Some out, st') \<Longrightarrow>
   (out = Exit 0 \<and> (\<exists>before. trace st' = before @ usage_text)) \<or>
   (out = Exit 1 \<and> (\<exists>before. trace st' = before @ [Print Stderr Err_throttle_range]))"
proof (induction pc nc rest st rule: parse_options.induct)
  case (1 pc nc rest st)
  obtain opt oa nc' rest' st1 where g: "getopt_long pc nc rest st = (opt, oa, nc', rest', st1)"
    by (metis prod_cases5)
  show ?case
  proof (cases "opt = - 1")
    case True
    with g "1.prems" show ?thesis by (subst (asm) parse_options.simps) simp
  next
    case False
    obtain r st2 where s: "option_switch opt oa st1 = (r, st2)" by (metis surj_pair)
    show ?thesis
    proof (cases r)
      case None
      from "1.prems" g s False None
      have "parse_options pc nc' rest' st2 = (Some out, st')"
        by (subst (asm) parse_options.simps) simp
      with "1.IH" [OF g [symmetric] refl refl refl False s [symmetric] None]
      show ?thesis .
    next
      case (Some o2)
      from "1.prems" g s False Some have e: "o2 = out" "st2 = st'"
        by (subst (asm) parse_options.simps, simp)+
      from option_switch_exit [OF s [unfolded Some e] getopt_long_codes [OF g] False
             getopt_long_optarg [OF g]]
      show ?thesis by blast
    qed
  qed
qed

lemma parse_options_quiet:
  "parse_options pc nc rest st = (None, st') \<Longrightarrow> trace st' = trace st"
proof (induction pc nc rest st rule: parse_options.induct)
  case (1 pc nc rest st)
  obtain opt oa nc' rest' st1 where g: "getopt_long pc nc rest st = (opt, oa, nc', rest', st1)"
    by (metis prod_cases5)
  show ?case
  proof (cases "opt = - 1")
    case True
    with g "1.prems" getopt_long_quiet [OF g] show ?thesis
      by (subst (asm) parse_options.simps) simp
  next
    case False
    obtain r st2 where s: "option_switch opt oa st1 = (r, st2)" by (metis surj_pair)
    from "1.prems" g s False have r: "r = None" and rec: "parse_options pc nc' rest' st2 = (None, st')"
      by (subst (asm) parse_options.simps, auto split: option.splits)+
    from s r have q: "opt \<noteq> of_char CHR ''?''"
      by (auto simp: option_switch_def)
    from "1.IH" [OF g [symmetric] refl refl refl False s [symmetric] r rec]
         getopt_long_quiet [OF g q] option_switch_quiet [OF s [unfolded r]]
    show ?thesis by simp
  qed
qed

subsection \<open>From the start of \<^verbatim>\<open>main\<close> to the end of the option loop\<close>

lemma main_startup:
  "main env args =
     (case parse_options (posixly_correct env) [] args startup_state of
        (Some out, st1) \<Rightarrow> (out, st1)
      | (None, st1) \<Rightarrow> main_after_options env st1)"
  by (simp add: main_def startup_state_def)

lemma startup_state_untouched: "untouched startup_state"
  by (simp add: startup_state_def untouched_def main_defs)

lemma after_loop_untouched:
  "parse_options pc [] args startup_state = (r, st) \<Longrightarrow> untouched st"
  using parse_options_untouched [OF startup_state_untouched, of pc "[]" args] by simp

lemma untouched_append:
  "untouched st \<Longrightarrow> list_all (\<lambda>a. \<not> touches_tracing a) as \<Longrightarrow> trace st' = trace st @ as \<Longrightarrow>
   untouched st'"
  by (simp add: untouched_def)

lemma main_never_faults: "fst (main env args) \<noteq> Segv"
proof (cases "parse_options (posixly_correct env) [] args startup_state")
  case (Pair r st)
  show ?thesis
  proof (cases r)
    case None
    with Pair show ?thesis
      by (simp add: main_startup main_after_options_def do_process_perf_def
                    do_process_ftrace_def do_exit_def Let_def)
  next
    case (Some out)
    with Pair parse_options_outcome [of "posixly_correct env" "[]" args startup_state out]
    show ?thesis by (auto simp: main_startup)
  qed
qed

section \<open>Properties of the session and the engine\<close>

subsection \<open>The signal handler\<close>

lemma on_signal_eq:
  "on_signal sig st =
     (Exit 0, st\<lparr>trace := trace st @
        (if m_debug st \<noteq> 0 then [Print Stdout (Dbg_exit_on_signal sig)] else []) @
        cleanup_calls st @ [Call Final_report]\<rparr>)"
  by (simp add: on_signal_def do_exit_def call_def log_defs cleanup_calls_def Let_def)

subsection \<open>The invariant of the nodes is kept by \<^const>\<open>ingest\<close>\<close>

lemma all_ok_Node:
  "all_ok (Node f ch cur pk ac fc) \<longleftrightarrow> 0 \<le> cur \<and> cur \<le> pk \<and> list_all all_ok ch"
  by (auto simp: all_ok_def node_ok_def list_all_iff)

lemma all_ok_new_node: "all_ok (new_node f)"
  by (simp add: new_node_def all_ok_Node)

lemma all_ok_account: "all_ok n \<Longrightarrow> all_ok (account k s n)"
  by (cases n; cases k) (auto simp: all_ok_Node)

lemma all_ok_upsert_child:
  "list_all all_ok ns \<Longrightarrow> (\<And>x. all_ok x \<Longrightarrow> all_ok (g x)) \<Longrightarrow>
   list_all all_ok (upsert_child fr g ns)"
  by (induction ns) (auto simp: all_ok_new_node)

lemma all_ok_walk:
  "(\<And>x. all_ok x \<Longrightarrow> all_ok (g x)) \<Longrightarrow> all_ok n \<Longrightarrow> all_ok (walk g frs n)"
proof (induction frs arbitrary: n)
  case Nil
  then show ?case by simp
next
  case (Cons fr frs)
  obtain f ch cur pk ac fc where n: "n = Node f ch cur pk ac fc" by (cases n)
  with Cons.prems have "list_all all_ok ch" and c: "0 \<le> cur" "cur \<le> pk"
    by (simp_all add: all_ok_Node)
  then have "list_all all_ok (upsert_child fr (walk g frs) ch)"
    using Cons.IH Cons.prems(1) by (intro all_ok_upsert_child) auto
  with n c show ?case by (simp add: all_ok_Node)
qed

lemma forest_ok_iff: "forest_ok m \<longleftrightarrow> list_all (\<lambda>(og, r). all_ok r) m"
  by (auto simp: forest_ok_def forest_nodes_def all_ok_def list_all_iff)

lemma forest_ok_upsert_root:
  "forest_ok m \<Longrightarrow> (\<And>x. all_ok x \<Longrightarrow> all_ok (g x)) \<Longrightarrow> forest_ok (upsert_root og g m)"
  unfolding forest_ok_iff
  by (induction og g m rule: upsert_root.induct) (auto simp: all_ok_new_node)

lemma forest_ok_ingest: "forest_ok m \<Longrightarrow> forest_ok (ingest e m)"
  unfolding ingest_def
  by (intro forest_ok_upsert_root all_ok_walk all_ok_account)

lemma forest_ok_fold: "forest_ok m \<Longrightarrow> forest_ok (fold ingest evs m)"
  by (induction evs arbitrary: m) (simp_all add: forest_ok_ingest)

lemma forest_ok_empty: "forest_ok []"
  by (simp add: forest_ok_def forest_nodes_def)

lemma account_Free_keeps:
  "frame_id (account Free s n) = frame_id n"
  "children (account Free s n) = children n"
  "peak_bytes (account Free s n) = peak_bytes n"
  by (cases n; simp)+

lemma frame_id_new_node: "frame_id (new_node f) = f"
  by (simp add: new_node_def)

lemma frame_id_walk:
  "(\<And>x. frame_id (g x) = frame_id x) \<Longrightarrow> frame_id (walk g frs n) = frame_id n"
  by (cases frs) simp_all

lemma find_upsert_child:
  assumes "\<And>x. frame_id (g x) = frame_id x"
  shows "find (\<lambda>c. frame_id c = a) (upsert_child fr g ns) =
           (if a = fr
            then Some (g (case find (\<lambda>c. frame_id c = fr) ns of None \<Rightarrow> new_node fr | Some c \<Rightarrow> c))
            else find (\<lambda>c. frame_id c = a) ns)"
  by (induction ns) (auto simp: assms frame_id_new_node)

lemma lookup_walk_peak:
  assumes g: "\<And>x. frame_id (g x) = frame_id x" "\<And>x. children (g x) = children x"
             "\<And>x. peak_bytes (g x) = peak_bytes x"
  shows "lookup_node p n = Some x \<Longrightarrow>
         \<exists>x'. lookup_node p (walk g q n) = Some x' \<and> peak_bytes x' = peak_bytes x"
proof (induction q arbitrary: p n x)
  case Nil
  then show ?case by (cases p) (auto simp: g)
next
  case (Cons fr frs)
  show ?case
  proof (cases p)
    case Nil
    with Cons.prems show ?thesis by simp
  next
    case (Cons a as)
    note p = this
    from Cons.prems p obtain c where c: "find (\<lambda>c. frame_id c = a) (children n) = Some c"
      and l: "lookup_node as c = Some x"
      by (auto split: option.splits)
    have w: "\<And>y. frame_id (walk g frs y) = frame_id y" by (rule frame_id_walk) (rule g)
    show ?thesis
    proof (cases "a = fr")
      case True
      from Cons.IH [OF l] obtain x' where "lookup_node as (walk g frs c) = Some x'"
        "peak_bytes x' = peak_bytes x" by blast
      with True c p show ?thesis by (simp add: find_upsert_child [OF w])
    next
      case False
      with c l p show ?thesis by (simp add: find_upsert_child [OF w])
    qed
  qed
qed

lemma lookup_walk_terminal:
  assumes g: "\<And>x. frame_id (g x) = frame_id x"
  shows "lookup_node q n = Some x \<Longrightarrow> lookup_node q (walk g q n) = Some (g x)"
proof (induction q arbitrary: n)
  case Nil
  then show ?case by simp
next
  case (Cons fr frs)
  from Cons.prems obtain c where c: "find (\<lambda>c. frame_id c = fr) (children n) = Some c"
    and l: "lookup_node frs c = Some x"
    by (auto split: option.splits)
  have w: "\<And>y. frame_id (walk g frs y) = frame_id y" by (rule frame_id_walk) (rule g)
  from Cons.IH [OF l] c show ?case by (simp add: find_upsert_child [OF w])
qed

lemma map_of_upsert_root:
  "map_of (upsert_root og g m) k =
     (if k = og then Some (g (case map_of m og of None \<Rightarrow> new_node 0 | Some r \<Rightarrow> r))
      else map_of m k)"
  by (induction og g m rule: upsert_root.induct) auto

lemma free_keeps_peak:
  assumes "kind e = Free" and "node_at m og p = Some n"
  shows "\<exists>n'. node_at (ingest e m) og p = Some n' \<and> peak_bytes n' = peak_bytes n"
proof -
  from assms(2) obtain r where r: "map_of m og = Some r" and l: "lookup_node p r = Some n"
    by (auto simp: node_at_def split: option.splits)
  show ?thesis
  proof (cases "og = origin e")
    case True
    from lookup_walk_peak [of "account Free (size_bytes e)", OF account_Free_keeps l, of "call_stack e"]
    show ?thesis using True r assms(1)
      by (simp add: node_at_def ingest_def map_of_upsert_root)
  next
    case False
    with r l show ?thesis
      by (simp add: node_at_def ingest_def map_of_upsert_root)
  qed
qed

lemma free_is_clamped:
  assumes "kind e = Free" and "node_at m (origin e) (call_stack e) = Some n"
  shows "\<exists>n'. node_at (ingest e m) (origin e) (call_stack e) = Some n' \<and>
              current_bytes n' = max 0 (current_bytes n - int (size_bytes e))"
proof -
  from assms(2) obtain r where r: "map_of m (origin e) = Some r"
    and l: "lookup_node (call_stack e) r = Some n"
    by (auto simp: node_at_def split: option.splits)
  have c: "current_bytes (account Free s n) = max 0 (current_bytes n - int s)" for s
    by (cases n) simp
  from lookup_walk_terminal [of "account Free (size_bytes e)", OF account_Free_keeps(1) l]
  show ?thesis using r assms(1) c
    by (simp add: node_at_def ingest_def map_of_upsert_root)
qed

lemmas engine_defs = ingest_def new_node_def forest_nodes_def node_at_def page_event_def


section \<open>The claims about the command line\<close>

text \<open>
  C1. \<^verbatim>\<open>--sort-by peak\<close> should select the peak metric and \<^verbatim>\<open>--sort-by alloc\<close> the
  alloc metric. The code does the opposite: \<^verbatim>\<open>strcmp\<close> is zero on equal strings, so the
  test of line 183 holds for every argument but \<^verbatim>\<open>peak\<close>. After \<^verbatim>\<open>--sort-by peak\<close> the
  alloc flag is the one set, after \<^verbatim>\<open>--sort-by alloc\<close> the peak flag.
\<close>

theorem sort_by_sets_the_other_flag:
  "m_sort_peak (snd (main root_env [''--page'', ''--sort-by'', ''peak''])) = 0 \<and>
   m_sort_alloc (snd (main root_env [''--page'', ''--sort-by'', ''peak''])) = 1 \<and>
   m_sort_peak (snd (main root_env [''--page'', ''--sort-by'', ''alloc''])) = 1 \<and>
   m_sort_alloc (snd (main root_env [''--page'', ''--sort-by'', ''alloc''])) = 0"
  by (simp add: main_defs parse_options_unfold getopt_defs option_switch_def log_defs)

text \<open>
  In general, when the loop meets \<^verbatim>\<open>--sort-by\<close> with argument \<open>a\<close>: every argument other
  than \<^verbatim>\<open>peak\<close> sets the peak flag, and \<^verbatim>\<open>peak\<close> sets the alloc flag.
\<close>

lemma sort_by_step:
  "parse_options pc [] (''--sort-by'' # a # rest) st =
     parse_options pc [] rest
       (if strcmp a ''peak'' \<noteq> 0 then st\<lparr>m_sort_peak := 1, m_sort_alloc := 0\<rparr>
        else if strcmp a ''alloc'' \<noteq> 0 then st\<lparr>m_sort_peak := 0, m_sort_alloc := 1\<rparr>
        else st)"
  by (simp add: parse_options_unfold getopt_defs option_switch_def)

text \<open>
  C3. An option that \<^verbatim>\<open>getopt_long\<close> does not recognise should end the process with a
  non-zero exit code. \<^verbatim>\<open>getopt_long\<close> answers \<^verbatim>\<open>'?'\<close> for it, which is also the value the
  table gives to \<^verbatim>\<open>--help\<close> (line 97): the case of line 191 runs, the usage text is
  printed and the process exits with 0. The \<^verbatim>\<open>default\<close> case of line 194 is not reached.
\<close>

theorem unrecognized_option_exits_zero:
  "main root_env [''--bogus''] =
     (Exit 0, initial_state\<lparr>trace := startup_trace @ [Print Stderr Getopt_diagnostic] @ usage_text\<rparr>)"
  by (simp add: main_defs parse_options_unfold getopt_defs option_switch_def log_defs
                display_usage_def usage_text_def usage_lines_def)

text \<open>
  The same happens for every other way in which \<^verbatim>\<open>getopt_long\<close> rejects an argument:
  an unknown short option, an ambiguous abbreviation, a missing or an unexpected option
  argument, also after valid options.
\<close>

lemma rejected_options_exit_zero:
  "fst (main env [''-x'']) = Exit 0"
  "fst (main env [''--s'']) = Exit 0"
  "fst (main env [''--throttle'']) = Exit 0"
  "fst (main env [''--page=1'']) = Exit 0"
  "fst (main env [''--page'', ''--ftrace'', ''--perf'', ''--nonsense'']) = Exit 0"
  by (simp_all add: main_defs parse_options_unfold getopt_defs option_switch_def log_defs)

text \<open>
  The other half of C3 holds: with both \<^verbatim>\<open>--ftrace\<close> and \<^verbatim>\<open>--perf\<close> the process exits
  with \<^verbatim>\<open>EINVAL\<close> and no adapter function has been called.
\<close>

lemma ftrace_and_perf_exits_einval:
  assumes "parse_options (posixly_correct env) [] args startup_state = (None, st)"
    and "m_perf st \<noteq> 0" and "m_ftrace st \<noteq> 0"
  shows "fst (main env args) = Exit EINVAL \<and> untouched (snd (main env args))"
proof -
  have "untouched st" using after_loop_untouched [OF assms(1)] .
  with assms show ?thesis
    by (simp add: main_startup main_after_options_def call_def untouched_def trace_log_error)
qed

text \<open>
  C8. When the loop meets \<^verbatim>\<open>--throttle\<close> with argument \<open>a\<close>, in either spelling: if
  \<^verbatim>\<open>atoi\<close> of the argument is below 0 or above 100, the error of line 178 goes to the
  error stream and the process exits with code 1; otherwise the value becomes
  \<^verbatim>\<open>m_throttle\<close> and the loop goes on with the arguments that follow.
\<close>

theorem throttle_range_checked:
  "(atoi a < 0 \<or> 100 < atoi a \<longrightarrow>
      parse_options pc [] (''--throttle'' # a # rest) st =
        (Some (Exit 1), st\<lparr>m_throttle := atoi a,
                            trace := trace st @ [Print Stderr Err_throttle_range]\<rparr>) \<and>
      parse_options pc [] ((''--throttle='' @ a) # rest) st =
        (Some (Exit 1), st\<lparr>m_throttle := atoi a,
                            trace := trace st @ [Print Stderr Err_throttle_range]\<rparr>)) \<and>
   (0 \<le> atoi a \<and> atoi a \<le> 100 \<longrightarrow>
      parse_options pc [] (''--throttle'' # a # rest) st =
        parse_options pc [] rest (st\<lparr>m_throttle := atoi a\<rparr>) \<and>
      parse_options pc [] ((''--throttle='' @ a) # rest) st =
        parse_options pc [] rest (st\<lparr>m_throttle := atoi a\<rparr>))"
  by (simp add: parse_options_unfold getopt_defs option_switch_def log_defs)

theorem throttle_range_checked_witness:
  "100 < atoi ''101'' \<and>
   fst (parse_options False [] [''--throttle'', ''101'', ''--page''] initial_state) = Some (Exit 1) \<and>
   atoi ''-1'' < 0 \<and>
   fst (parse_options False [] [''--throttle=-1'', ''--page''] initial_state) = Some (Exit 1) \<and>
   0 \<le> atoi ''55'' \<and> atoi ''55'' \<le> 100 \<and>
   parse_options False [] [''--throttle'', ''55'', ''--page''] initial_state =
     (None, initial_state\<lparr>m_throttle := 55, m_page := 1\<rparr>)"
proof -
  have hi: "atoi ''101'' = 101" and lo: "atoi ''-1'' = - 1" and ok: "atoi ''55'' = 55"
    by (simp_all add: atoi_defs)
  have page: "parse_options False [] [''--page''] s = (None, s\<lparr>m_page := 1\<rparr>)" for s
    by (simp add: parse_options_unfold getopt_defs option_switch_def)
  from throttle_range_checked [of "''101''" False "[''--page'']" initial_state]
       throttle_range_checked [of "''-1''" False "[''--page'']" initial_state]
       throttle_range_checked [of "''55''" False "[''--page'']" initial_state]
  show ?thesis
    by (simp add: hi lo ok page)
qed

text \<open>
  Without \<^verbatim>\<open>--throttle\<close> the threshold stays at the 100 of line 28, the top of the range
  that the option accepts. What the report makes of it is decided in \<^verbatim>\<open>final_report\<close>,
  which is not among the sources.
\<close>

lemma default_throttle:
  "m_throttle initial_state = 100"
  "m_throttle (snd (main root_env [''--page''])) = 100"
  by (simp_all add: main_defs parse_options_unfold getopt_defs option_switch_def log_defs)


text \<open>
  Nor does \<^verbatim>\<open>--help\<close> end the process when \<^verbatim>\<open>getopt_long\<close> does not scan it as an option:
  after \<^verbatim>\<open>--\<close>, as the argument of the option before it, or, with \<^verbatim>\<open>POSIXLY_CORRECT\<close>,
  after a word that is not an option. The loop then runs to its end.
\<close>

lemma help_not_scanned:
  "fst (main root_env [''--page'', ''--'', ''--help'']) = Tracing Perf"
  "fst (main root_env [''--page'', ''--sort-by'', ''--help'']) = Tracing Perf"
  "fst (main (root_env\<lparr>posixly_correct := True\<rparr>) [''--page'', ''word'', ''--help'']) = Tracing Perf"
  "fst (main (root_env\<lparr>posixly_correct := True\<rparr>) [''-'', ''--help'']) = Exit EINVAL"
  by (simp_all add: main_defs parse_options_unfold getopt_defs option_switch_def log_defs)



text \<open>
  C6, as stated: every invocation without \<^verbatim>\<open>--page\<close> and \<^verbatim>\<open>--slab\<close> reports an error
  and exits with a non-zero code. \<^verbatim>\<open>memstrack --help\<close> is such an invocation; it prints
  the usage text and exits with 0, since the test of line 213 comes after the option loop.
\<close>

theorem help_without_subsystem_exits_zero:
  "''--page'' \<notin> set [''--help''] \<and> ''--slab'' \<notin> set [''--help''] \<and>
   m_page (snd (main root_env [''--help''])) = 0 \<and>
   m_slab (snd (main root_env [''--help''])) = 0 \<and>
   fst (main root_env [''--help'']) = Exit 0"
  by (simp add: main_defs parse_options_unfold getopt_defs option_switch_def log_defs
                display_usage_def usage_lines_def)

text \<open>
  C6, amended: when the option loop ends with neither \<^verbatim>\<open>m_page\<close> nor \<^verbatim>\<open>m_slab\<close> set, and
  it does not end the process with exit code 0 (as \<^verbatim>\<open>--help\<close> does), the last thing the
  process does is print an error on the error stream, it exits with a code that is not
  zero, and it has called no adapter function. The code is \<^verbatim>\<open>EINVAL\<close> when the loop has
  run to its end (the error is that of line 214, or that of line 205 when both adapters
  were asked for), and 1 when an out-of-range \<^verbatim>\<open>--throttle\<close> has ended the loop (the
  error of line 178).
\<close>

theorem missing_subsystem_exits_nonzero:
  assumes "parse_options (posixly_correct env) [] args startup_state = (r, st)"
    and "m_page st = 0" and "m_slab st = 0"
    and "r \<noteq> Some (Exit 0)"
  shows "fst (main env args) = Exit (if r = None then EINVAL else 1) \<and>
         (if r = None then EINVAL else 1) \<noteq> 0 \<and>
         last (trace (snd (main env args))) =
           Print Stderr (if r \<noteq> None then Err_throttle_range
                         else if m_perf st \<noteq> 0 \<and> m_ftrace st \<noteq> 0 then Err_ftrace_and_perf
                         else Err_page_or_slab) \<and>
         untouched (snd (main env args))"
proof -
  have u: "untouched st" using after_loop_untouched [OF assms(1)] .
  show ?thesis
  proof (cases r)
    case None
    with u assms show ?thesis
      by (simp add: main_startup main_after_options_def call_def untouched_def trace_log_error
                    EINVAL_def)
  next
    case (Some out)
    with parse_options_exit [of "posixly_correct env" "[]" args startup_state out st] assms(1,4)
    obtain before where "out = Exit 1" "trace st = before @ [Print Stderr Err_throttle_range]"
      by auto
    with Some u assms(1) show ?thesis
      by (simp add: main_startup)
  qed
qed

theorem missing_subsystem_exits_nonzero_witness:
  "parse_options (posixly_correct root_env) [] [''--json''] startup_state =
     (None, startup_state\<lparr>m_json := 1\<rparr>) \<and>
   m_page (startup_state\<lparr>m_json := 1\<rparr>) = 0 \<and> m_slab (startup_state\<lparr>m_json := 1\<rparr>) = 0 \<and>
   fst (main root_env [''--json'']) = Exit EINVAL \<and>
   last (trace (snd (main root_env [''--json'']))) = Print Stderr Err_page_or_slab \<and>
   untouched (snd (main root_env [''--json''])) \<and>
   fst (parse_options (posixly_correct root_env) [] [''--throttle'', ''101''] startup_state) =
     Some (Exit 1) \<and>
   fst (main root_env [''--throttle'', ''101'']) = Exit 1 \<and>
   last (trace (snd (main root_env [''--throttle'', ''101'']))) = Print Stderr Err_throttle_range \<and>
   untouched (snd (main root_env [''--throttle'', ''101'']))"
proof -
  have p: "parse_options (posixly_correct root_env) [] [''--json''] startup_state =
             (None, startup_state\<lparr>m_json := 1\<rparr>)"
    by (simp add: parse_options_unfold getopt_defs option_switch_def)
  have z: "m_page (startup_state\<lparr>m_json := 1\<rparr>) = 0" "m_slab (startup_state\<lparr>m_json := 1\<rparr>) = 0"
    "m_perf (startup_state\<lparr>m_json := 1\<rparr>) = 0"
    by (simp_all add: startup_state_def main_defs)
  let ?t = "log_error Err_throttle_range (startup_state\<lparr>m_throttle := 101\<rparr>)"
  have q: "parse_options (posixly_correct root_env) [] [''--throttle'', ''101''] startup_state =
             (Some (Exit 1), ?t)"
    by (simp add: parse_options_unfold getopt_defs option_switch_def atoi_defs)
  have y: "m_page ?t = 0" "m_slab ?t = 0"
    by (simp_all add: startup_state_def main_defs log_defs)
  have n: "Some (Exit 1) \<noteq> Some (Exit 0)" "None \<noteq> Some (Exit 0)" by simp_all
  from missing_subsystem_exits_nonzero [OF p z(1) z(2) n(2)]
       missing_subsystem_exits_nonzero [OF q y n(1)] p q z
  show ?thesis by simp
qed

text \<open>
  C7, as stated: the exit code of the privilege error is reserved for it, different from
  the code of configuration errors. \<^verbatim>\<open>EPERM\<close> is 1, and 1 is also the code with which an
  out-of-range \<^verbatim>\<open>--throttle\<close> exits (line 179).
\<close>

theorem privilege_code_is_throttle_error_code:
  "fst (main (root_env\<lparr>uid := 1000\<rparr>) [''--page'']) = Exit 1 \<and>
   fst (main root_env [''--page'', ''--throttle'', ''101'']) = Exit 1"
  by (simp add: main_defs parse_options_unfold getopt_defs option_switch_def log_defs atoi_defs)

text \<open>
  C7, amended: when the option loop runs to its end with a valid configuration (not both
  adapters, at least one of \<^verbatim>\<open>m_page\<close> and \<^verbatim>\<open>m_slab\<close>) and the user is not root, the
  process prints the error of line 219 and exits with \<^verbatim>\<open>EPERM\<close>, before any adapter
  function is called. \<^verbatim>\<open>EPERM\<close> differs from 0 and from \<^verbatim>\<open>EINVAL\<close>, the code for
  conflicting adapters and for a missing subsystem.
\<close>

theorem non_root_exits_eperm:
  assumes "parse_options (posixly_correct env) [] args startup_state = (None, st)"
    and "m_perf st = 0 \<or> m_ftrace st = 0"
    and "m_page st \<noteq> 0 \<or> m_slab st \<noteq> 0"
    and "uid env \<noteq> 0"
  shows "fst (main env args) = Exit EPERM \<and> EPERM \<noteq> 0 \<and> EPERM \<noteq> EINVAL \<and>
         last (trace (snd (main env args))) = Print Stderr Err_need_root \<and>
         untouched (snd (main env args))"
proof -
  have u: "untouched st" using after_loop_untouched [OF assms(1)] .
  with assms show ?thesis
    by (auto simp: main_startup main_after_options_def call_def untouched_def trace_log_error
                  EINVAL_def EPERM_def)
qed

theorem non_root_exits_eperm_witness:
  "parse_options (posixly_correct (root_env\<lparr>uid := 1000\<rparr>)) [] [''--page''] startup_state =
     (None, startup_state\<lparr>m_page := 1\<rparr>) \<and>
   m_perf (startup_state\<lparr>m_page := 1\<rparr>) = 0 \<and>
   m_page (startup_state\<lparr>m_page := 1\<rparr>) \<noteq> 0 \<and>
   uid (root_env\<lparr>uid := 1000\<rparr>) \<noteq> 0 \<and>
   fst (main (root_env\<lparr>uid := 1000\<rparr>) [''--page'']) = Exit EPERM \<and>
   untouched (snd (main (root_env\<lparr>uid := 1000\<rparr>) [''--page'']))"
proof -
  have p: "parse_options (posixly_correct (root_env\<lparr>uid := 1000\<rparr>)) [] [''--page''] startup_state =
             (None, startup_state\<lparr>m_page := 1\<rparr>)"
    by (simp add: parse_options_unfold getopt_defs option_switch_def)
  have z: "m_perf (startup_state\<lparr>m_page := 1\<rparr>) = 0" "m_page (startup_state\<lparr>m_page := 1\<rparr>) \<noteq> 0"
    by (simp_all add: startup_state_def main_defs)
  have r: "uid (root_env\<lparr>uid := 1000\<rparr>) \<noteq> 0" by simp
  from non_root_exits_eperm [OF p disjI1 [OF z(1)] disjI1 [OF z(2)] r] p z r
  show ?thesis by simp
qed

text \<open>
  C10. When the options have set neither \<^verbatim>\<open>m_perf\<close> nor \<^verbatim>\<open>m_ftrace\<close>: once the option
  loop has ended through its \<^verbatim>\<open>break\<close>, line 210 sets \<^verbatim>\<open>m_perf\<close> and leaves
  \<^verbatim>\<open>m_ftrace\<close> clear, so exactly one of the two is set from there on; a run that gets
  to line 224 (a subsystem given, root) calls \<^verbatim>\<open>perf_handling_init\<close>; when that returns
  0 the run installs the signal handler, calls \<^verbatim>\<open>perf_handling_start\<close> and enters the perf
  loop, and these are the only adapter calls of the run; and no run enters the ftrace loop
  or calls \<^verbatim>\<open>ftrace_handling_init\<close>.
\<close>

theorem perf_is_default_adapter:
  assumes "parse_options (posixly_correct env) [] args startup_state = (r, st)"
    and "m_perf st = 0" and "m_ftrace st = 0"
  shows "(r = None \<longrightarrow> m_perf (snd (main env args)) = 1 \<and> m_ftrace (snd (main env args)) = 0) \<and>
         (r = None \<and> (m_page st \<noteq> 0 \<or> m_slab st \<noteq> 0) \<and> uid env = 0 \<and> perf_init_result env = 0
            \<longrightarrow> fst (main env args) = Tracing Perf) \<and>
         fst (main env args) \<noteq> Tracing Ftrace \<and>
         Call Ftrace_handling_init \<notin> set (trace (snd (main env args))) \<and>
         (r = None \<and> (m_page st \<noteq> 0 \<or> m_slab st \<noteq> 0) \<and> uid env = 0
            \<longrightarrow> Call Perf_handling_init \<in> set (trace (snd (main env args)))) \<and>
         (r = None \<and> (m_page st \<noteq> 0 \<or> m_slab st \<noteq> 0) \<and> uid env = 0 \<and> perf_init_result env = 0
            \<longrightarrow> trace (snd (main env args)) =
                  startup_trace @
                  (if m_show_misc st \<noteq> 0 then [Call Print_slab_usage] else []) @
                  [Call Perf_handling_init, Call Signal_sigint_on_signal, Call Perf_handling_start])"
proof -
  have u: "untouched st" using after_loop_untouched [OF assms(1)] .
  then have n: "Call Ftrace_handling_init \<notin> set (trace st)"
    by (auto simp: untouched_def list_all_iff)
  have t0: "trace startup_state = startup_trace"
    by (simp add: startup_state_def main_defs)
  show ?thesis
  proof (cases r)
    case None
    with parse_options_quiet [of "posixly_correct env" "[]" args startup_state st] assms(1) t0
    have t: "trace st = startup_trace" by simp
    from None assms n t show ?thesis
      by (auto simp: main_startup main_after_options_def do_process_perf_def call_def log_defs
                     Let_def)
  next
    case (Some out)
    from assms(1) Some parse_options_outcome [of "posixly_correct env" "[]" args startup_state out]
    have "out \<noteq> Tracing Ftrace" by auto
    with Some assms n show ?thesis
      by (simp add: main_startup)
  qed
qed

theorem perf_is_default_adapter_witness:
  "parse_options (posixly_correct root_env) [] [''--page''] startup_state =
     (None, startup_state\<lparr>m_page := 1\<rparr>) \<and>
   m_perf (startup_state\<lparr>m_page := 1\<rparr>) = 0 \<and> m_ftrace (startup_state\<lparr>m_page := 1\<rparr>) = 0 \<and>
   m_perf (snd (main root_env [''--page''])) = 1 \<and>
   m_ftrace (snd (main root_env [''--page''])) = 0 \<and>
   fst (main root_env [''--page'']) = Tracing Perf \<and>
   Call Ftrace_handling_init \<notin> set (trace (snd (main root_env [''--page'']))) \<and>
   Call Perf_handling_init \<in> set (trace (snd (main root_env [''--page'']))) \<and>
   trace (snd (main root_env [''--page''])) =
     startup_trace @
     [Call Perf_handling_init, Call Signal_sigint_on_signal, Call Perf_handling_start]"
proof -
  have p: "parse_options (posixly_correct root_env) [] [''--page''] startup_state =
             (None, startup_state\<lparr>m_page := 1\<rparr>)"
    by (simp add: parse_options_unfold getopt_defs option_switch_def)
  have z: "m_perf (startup_state\<lparr>m_page := 1\<rparr>) = 0" "m_ftrace (startup_state\<lparr>m_page := 1\<rparr>) = 0"
    "m_show_misc (startup_state\<lparr>m_page := 1\<rparr>) = 0"
    by (simp_all add: startup_state_def main_defs)
  have e: "uid root_env = 0" "perf_init_result root_env = 0"
    by (simp_all add: root_env_def)
  from perf_is_default_adapter [OF p z(1,2)] p z e show ?thesis
    by (simp add: startup_trace_def)
qed

section \<open>The claim about termination\<close>

text \<open>
  C4, as stated: a signal sets a termination flag that is looked at between adapter
  fetches only, so the report is never produced inside a partially applied event.
  The code has no such flag: \<^verbatim>\<open>on_signal\<close> calls \<^verbatim>\<open>do_exit\<close>, which calls
  \<^verbatim>\<open>final_report\<close> from the handler. In the run below the signal arrives while
  \<^verbatim>\<open>perf_handling_process\<close> is executing, and the report is produced at that point.
\<close>

theorem report_runs_inside_process_call:
  "fst (main root_env [''--page'']) = Tracing Perf \<and>
   Option.bind (session_start (main root_env [''--page''])) (run_session [Process_begins, Sigint]) =
     Some (Ended (Exit 0) In_process,
           (snd (main root_env [''--page'']))\<lparr>trace :=
              startup_trace @
              [Call Perf_handling_init, Call Signal_sigint_on_signal, Call Perf_handling_start,
               Call Perf_handling_process, Call Perf_handling_clean, Call Final_report]\<rparr>)"
  by (simp add: main_defs parse_options_unfold getopt_defs option_switch_def log_defs
        on_signal_def SIGINT_def)

text \<open>
  C4, amended: on \<^verbatim>\<open>SIGINT\<close>, at whatever point of the loop it arrives (between two calls
  of the adapter's processing function or inside one), the handler itself prints a debug
  line if \<^verbatim>\<open>--debug\<close> was given, releases the adapter whose flag is set, calls
  \<^verbatim>\<open>final_report\<close> once and exits with 0. No flag changes (the state differs in its trace
  only), and nothing happens in the session afterwards.
\<close>

theorem sigint_reports_at_once:
  "session_step Sigint (Looping a p, st) =
     Some (Ended (Exit 0) p,
           st\<lparr>trace := trace st @ signal_debug_line st @ cleanup_calls st @ [Call Final_report]\<rparr>) \<and>
   session_step e (Ended out p, st) = None"
  by (simp add: on_signal_eq signal_debug_line_def)

section \<open>The claim about the engine\<close>

text \<open>
  C5. After any sequence of events, ingested from the empty forest, every node has
  \<open>0 \<le> current_bytes \<le> peak_bytes\<close>. A Free, in any forest, leaves the \<^verbatim>\<open>peak_bytes\<close>
  of every node as it was, and sets the \<^verbatim>\<open>current_bytes\<close> of its terminal node to the old
  value less the size, or to zero where that would be negative. (The engine is the one
  written from the specification.)
\<close>

theorem peak_ge_current_ge_zero:
  "list_all (\<lambda>n. 0 \<le> current_bytes n \<and> current_bytes n \<le> peak_bytes n)
     (forest_nodes (fold ingest evs [])) \<and>
   (kind e = Free \<and> node_at m og p = Some n \<longrightarrow>
      (\<exists>n'. node_at (ingest e m) og p = Some n' \<and> peak_bytes n' = peak_bytes n)) \<and>
   (kind e = Free \<and> node_at m (origin e) (call_stack e) = Some t \<longrightarrow>
      (\<exists>t'. node_at (ingest e m) (origin e) (call_stack e) = Some t' \<and>
            current_bytes t' = max 0 (current_bytes t - int (size_bytes e))))"
proof -
  have "list_all node_ok (forest_nodes (fold ingest evs []))"
    using forest_ok_fold [OF forest_ok_empty, of evs] by (simp add: forest_ok_def)
  then have "list_all (\<lambda>n. 0 \<le> current_bytes n \<and> current_bytes n \<le> peak_bytes n)
               (forest_nodes (fold ingest evs []))"
    by (simp add: node_ok_def list_all_iff)
  with free_keeps_peak [of e m og p n] free_is_clamped [of e m t] show ?thesis by blast
qed

theorem peak_ge_current_ge_zero_witness:
  "list_all (\<lambda>n. 0 \<le> current_bytes n \<and> current_bytes n \<le> peak_bytes n)
     (forest_nodes (fold ingest [page_event Alloc [1, 2] 4096, page_event Free [1, 2] 5000] [])) \<and>
   kind (page_event Free [1, 2] 5000) = Free \<and>
   node_at (fold ingest [page_event Alloc [1, 2] 4096] []) 0 [1, 2] =
     Some (Node 2 [] 4096 4096 1 0) \<and>
   (\<exists>n'. node_at (ingest (page_event Free [1, 2] 5000)
                    (fold ingest [page_event Alloc [1, 2] 4096] [])) 0 [1, 2] = Some n' \<and>
         peak_bytes n' = 4096 \<and> current_bytes n' = 0)"
proof -
  let ?e = "page_event Free [1, 2] 5000"
  let ?m = "fold ingest [page_event Alloc [1, 2] 4096] []"
  have k: "kind ?e = Free" and o: "origin ?e = 0" and c: "call_stack ?e = [1, 2]"
    by (simp_all add: page_event_def)
  have a: "node_at ?m 0 [1, 2] = Some (Node 2 [] 4096 4096 1 0)"
    by (simp add: engine_defs)
  have a': "node_at ?m (origin ?e) (call_stack ?e) = Some (Node 2 [] 4096 4096 1 0)"
    using a unfolding o c .
  note T = peak_ge_current_ge_zero [of "[page_event Alloc [1, 2] 4096, ?e]" ?e ?m 0 "[1, 2]"
             "Node 2 [] 4096 4096 1 0" "Node 2 [] 4096 4096 1 0"]
  from T have inv: "list_all (\<lambda>n. 0 \<le> current_bytes n \<and> current_bytes n \<le> peak_bytes n)
     (forest_nodes (fold ingest [page_event Alloc [1, 2] 4096, ?e] []))"
    by blast
  from T k a obtain n' where n': "node_at (ingest ?e ?m) 0 [1, 2] = Some n'"
    "peak_bytes n' = peak_bytes (Node 2 [] 4096 4096 1 0)"
    by blast
  from T k a' obtain t' where t': "node_at (ingest ?e ?m) (origin ?e) (call_stack ?e) = Some t'"
    "current_bytes t' = max 0 (current_bytes (Node 2 [] 4096 4096 1 0) - int (size_bytes ?e))"
    by blast
  from t'(1) n'(1) have "t' = n'" unfolding o c by simp
  with t'(2) have cur: "current_bytes n' = 0" by (simp add: page_event_def)
  from n'(2) have pk: "peak_bytes n' = 4096" by simp
  from inv k a n'(1) pk cur show ?thesis by blast
qed

end
